theory Spec2Isabelle
  imports Main
begin

section \<open>Python values, errors and streams\<close>

text \<open>
  The records handled by \<^verbatim>\<open>fitbit2oscar\<close> are what a JSON or CSV reader returns:
  \<^verbatim>\<open>None\<close>, booleans, integers, strings, lists and dictionaries. A dictionary is an
  association list in insertion order (its keys are assumed distinct, as in Python); a key
  is a string or an integer. Floating-point values are not part of the model. A string is
  a list of characters; Python's strings are sequences of code points, so the model is
  exact for ASCII text.
\<close>

datatype key = KStr string | KInt int

datatype pyval =
    VNone
  | VBool bool
  | VInt int
  | VStr string
  | VList "pyval list"
  | VDict "(key \<times> pyval) list"

type_synonym entry = "(key \<times> pyval) list"

text \<open>The exceptions that the modelled code can raise; \<open>OtherError\<close> is whatever an
  external collaborator raises.\<close>

datatype error =
    KeyError
  | TypeError
  | IndexError
  | AttributeError
  | ValueError string
  | OtherError string

text \<open>A generator, consumed to its end: the items it yields, then either a normal end
  (\<open>None\<close>) or the exception that ends it.\<close>

type_synonym 'a stream = "'a list \<times> error option"

subsection \<open>Subscripting: \<^verbatim>\<open>data[key]\<close>\<close>

text \<open>Indexing a sequence with an integer: negative indices count from the end, an index
  out of range raises \<^verbatim>\<open>IndexError\<close>.\<close>

definition seq_index :: "'a list \<Rightarrow> int \<Rightarrow> error + 'a" where
  "seq_index xs i =
     (if 0 \<le> i \<and> i < int (length xs) then Inr (xs ! nat i)
      else if i < 0 \<and> - int (length xs) \<le> i then Inr (xs ! nat (int (length xs) + i))
      else Inl IndexError)"

fun getitem :: "pyval \<Rightarrow> key \<Rightarrow> error + pyval" where
  "getitem (VDict kvs) k = (case map_of kvs k of Some v \<Rightarrow> Inr v | None \<Rightarrow> Inl KeyError)"
| "getitem (VList xs) (KInt i) = seq_index xs i"
| "getitem (VList xs) (KStr s) = Inl TypeError"
| "getitem (VStr s) (KInt i) =
     (case seq_index s i of Inl e \<Rightarrow> Inl e | Inr c \<Rightarrow> Inr (VStr [c]))"
| "getitem (VStr s) (KStr t) = Inl TypeError"
| "getitem VNone k = Inl TypeError"
| "getitem (VBool b) k = Inl TypeError"
| "getitem (VInt n) k = Inl TypeError"

subsection \<open>\<^verbatim>\<open>str.split\<close>\<close>

fun split_on :: "char \<Rightarrow> string \<Rightarrow> string list" where
  "split_on c [] = [[]]"
| "split_on c (x # xs) =
     (if x = c then [] # split_on c xs
      else (case split_on c xs of
              [] \<Rightarrow> [[x]]
            | w # ws \<Rightarrow> (x # w) # ws))"

section \<open>The path/value resolver: \<^verbatim>\<open>FitbitExtractor.get_nested_value\<close>\<close>

text \<open>
  \<^verbatim>\<open>
  def get_nested_value(self, data: dict, key_path: DictNotation) -> str | int:
      if "." in key_path:
          key_path = key_path.split(".")
      for key in key_path:
          try:
              data = data[key]
          except (KeyError, TypeError):
              data
      result = data.keys() if isinstance(data, dict) else data
      return result
  \<close>
  A key path is a string or a sequence of keys.
\<close>

datatype key_path = PathStr string | PathSeq "key list"

text \<open>The result is the key view of a dictionary, or the value itself.\<close>

datatype resolved = DictKeys "key list" | Value pyval

text \<open>
  The keys that the loop iterates over. On a string, \<^verbatim>\<open>"." in key_path\<close> is a substring
  test and the string is split; a string without a dot is iterated character by character.
  On a sequence, \<^verbatim>\<open>"." in key_path\<close> is a membership test, and a sequence that has the
  element \<^verbatim>\<open>"."\<close> has no \<^verbatim>\<open>split\<close>: \<^verbatim>\<open>AttributeError\<close>.
\<close>

definition path_keys :: "key_path \<Rightarrow> error + key list" where
  "path_keys p =
     (case p of
        PathStr s \<Rightarrow>
          if CHR ''.'' \<in> set s then Inr (map KStr (split_on CHR ''.'' s))
          else Inr (map (\<lambda>c. KStr [c]) s)
      | PathSeq ks \<Rightarrow>
          if KStr ''.'' \<in> set ks then Inl AttributeError else Inr ks)"

text \<open>The loop: \<^verbatim>\<open>KeyError\<close> and \<^verbatim>\<open>TypeError\<close> are caught and the loop goes on with
  the next key on the same value; any other exception leaves the function.\<close>

fun walk :: "pyval \<Rightarrow> key list \<Rightarrow> error + pyval" where
  "walk data [] = Inr data"
| "walk data (k # ks) =
     (case getitem data k of
        Inr v \<Rightarrow> walk v ks
      | Inl e \<Rightarrow> if e = KeyError \<or> e = TypeError then walk data ks else Inl e)"

definition keys_or_value :: "pyval \<Rightarrow> resolved" where
  "keys_or_value data = (case data of VDict kvs \<Rightarrow> DictKeys (map fst kvs) | _ \<Rightarrow> Value data)"

definition get_nested_value :: "pyval \<Rightarrow> key_path \<Rightarrow> error + resolved" where
  "get_nested_value data key_path =
     (case path_keys key_path of
        Inl e \<Rightarrow> Inl e
      | Inr ks \<Rightarrow> (case walk data ks of Inl e \<Rightarrow> Inl e | Inr v \<Rightarrow> Inr (keys_or_value v)))"

section \<open>Operators on resolved values\<close>

text \<open>\<^verbatim>\<open>x in entry\<close> on a dictionary hashes \<open>x\<close>: a key view, a list or a dictionary is
  unhashable (\<^verbatim>\<open>TypeError\<close>); \<^verbatim>\<open>True\<close> and \<^verbatim>\<open>False\<close> hash and compare as 1 and 0.\<close>

fun py_in_dict :: "resolved \<Rightarrow> entry \<Rightarrow> error + bool" where
  "py_in_dict (DictKeys ks) kvs = Inl TypeError"
| "py_in_dict (Value (VList xs)) kvs = Inl TypeError"
| "py_in_dict (Value (VDict d)) kvs = Inl TypeError"
| "py_in_dict (Value (VStr s)) kvs = Inr (KStr s \<in> set (map fst kvs))"
| "py_in_dict (Value (VInt n)) kvs = Inr (KInt n \<in> set (map fst kvs))"
| "py_in_dict (Value (VBool b)) kvs = Inr (KInt (if b then 1 else 0) \<in> set (map fst kvs))"
| "py_in_dict (Value VNone) kvs = Inr False"

fun starts_with :: "string \<Rightarrow> string \<Rightarrow> bool" where
  "starts_with [] s = True"
| "starts_with (p # ps) [] = False"
| "starts_with (p # ps) (c # cs) = (p = c \<and> starts_with ps cs)"

fun str_contains :: "string \<Rightarrow> string \<Rightarrow> bool" where
  "str_contains needle [] = (needle = [])"
| "str_contains needle (c # cs) = (starts_with needle (c # cs) \<or> str_contains needle cs)"

text \<open>\<^verbatim>\<open>s in x\<close> for a string \<open>s\<close>: membership in a key view or a list, the substring
  test on a string, \<^verbatim>\<open>TypeError\<close> on a value that is not iterable.\<close>

fun py_contains :: "string \<Rightarrow> resolved \<Rightarrow> error + bool" where
  "py_contains s (DictKeys ks) = Inr (KStr s \<in> set ks)"
| "py_contains s (Value (VDict d)) = Inr (KStr s \<in> set (map fst d))"
| "py_contains s (Value (VList xs)) = Inr (VStr s \<in> set xs)"
| "py_contains s (Value (VStr t)) = Inr (str_contains s t)"
| "py_contains s (Value (VInt n)) = Inl TypeError"
| "py_contains s (Value (VBool b)) = Inl TypeError"
| "py_contains s (Value VNone) = Inl TypeError"

text \<open>\<^verbatim>\<open>value >= min_valid\<close> with an integer on the right: defined on integers and
  booleans, \<^verbatim>\<open>TypeError\<close> otherwise.\<close>

fun py_ge :: "resolved \<Rightarrow> int \<Rightarrow> error + bool" where
  "py_ge (Value (VInt n)) m = Inr (n \<ge> m)"
| "py_ge (Value (VBool b)) m = Inr ((if b then 1 else 0) \<ge> m)"
| "py_ge (Value VNone) m = Inl TypeError"
| "py_ge (Value (VStr s)) m = Inl TypeError"
| "py_ge (Value (VList xs)) m = Inl TypeError"
| "py_ge (Value (VDict d)) m = Inl TypeError"
| "py_ge (DictKeys ks) m = Inl TypeError"

text \<open>\<^verbatim>\<open>str(n)\<close> for a counter.\<close>

definition digit_char :: "nat \<Rightarrow> char" where
  "digit_char d = ''0123456789'' ! d"

function str_nat :: "nat \<Rightarrow> string" where
  "str_nat n = (if n < 10 then [digit_char n] else str_nat (n div 10) @ [digit_char (n mod 10)])"
  by pat_completeness auto
termination
  by (relation "measure (\<lambda>n. n)") auto

section \<open>Configuration and external collaborators\<close>

text \<open>
  The fields of \<^verbatim>\<open>Config\<close> that the extractor reads: \<^verbatim>\<open>config.required_fields\<close>,
  \<^verbatim>\<open>config.vitals.timestamp\<close>, \<^verbatim>\<open>config.vitals.spo2_key\<close>, \<^verbatim>\<open>config.vitals.bpm_key\<close>,
  \<^verbatim>\<open>config.sleep_key.sleep_stages\<close>, \<^verbatim>\<open>config.sleep.sleep_transformations\<close>,
  \<^verbatim>\<open>config.timezone\<close> and \<^verbatim>\<open>config.use_seconds\<close>. A date is its ordinal.
\<close>

type_synonym date = int

record 'tz config =
  required_fields :: "key_path list"
  vitals_timestamp :: key
  vitals_spo2_key :: key_path
  vitals_bpm_key :: key_path
  sleep_key_sleep_stages :: key_path
  sleep_sleep_transformations :: "(key \<times> (entry \<Rightarrow> error + pyval)) list"
  timezone :: 'tz
  use_seconds :: bool

text \<open>
  \<^verbatim>\<open>read_file\<close>, \<^verbatim>\<open>convert_timestamp\<close> and \<^verbatim>\<open>is_valid_date\<close> are imported from modules
  that are not part of the extractor; they are parameters, and each may raise.
  \<^verbatim>\<open>is_valid_date\<close> is called once with the raw timestamp of a record and once with a date.
  \<open>datetime_date\<close> is the attribute chain \<^verbatim>\<open>timestamp.datetime.date()\<close> on an instant.
\<close>

datatype date_arg = RawTimestamp pyval | DateValue date

record ('tz, 'ts) collaborators =
  read_file :: "string \<Rightarrow> entry stream"
  convert_timestamp :: "pyval \<Rightarrow> 'tz \<Rightarrow> bool \<Rightarrow> error + 'ts"
  is_valid_date :: "date_arg \<Rightarrow> date \<Rightarrow> date \<Rightarrow> error + bool"
  datetime_date :: "'ts \<Rightarrow> error + date"

section \<open>The record validator: \<^verbatim>\<open>FitbitExtractor.is_valid_sleep_entry\<close>\<close>

text \<open>
  \<^verbatim>\<open>
  if not all(
      self.get_nested_value(entry, field) in entry
      for field in self.config.required_fields
  ):
      return False
  valid_date = is_valid_date(
      timestamp=entry[self.config.vitals.timestamp],
      start_date=start_date, end_date=end_date)
  light_exists = "light" in self.get_nested_value(
      entry, self.config.sleep_key.sleep_stages)
  return valid_date and light_exists
  \<close>
  \<^verbatim>\<open>all\<close> stops at the first false element; an exception in an element leaves it.
\<close>

fun all_required :: "entry \<Rightarrow> key_path list \<Rightarrow> error + bool" where
  "all_required entry [] = Inr True"
| "all_required entry (field # rest) =
     (case get_nested_value (VDict entry) field of
        Inl e \<Rightarrow> Inl e
      | Inr r \<Rightarrow>
          (case py_in_dict r entry of
             Inl e \<Rightarrow> Inl e
           | Inr b \<Rightarrow> if b then all_required entry rest else Inr False))"

definition is_valid_sleep_entry ::
  "('tz, 'ts) collaborators \<Rightarrow> 'tz config \<Rightarrow> entry \<Rightarrow> date \<Rightarrow> date \<Rightarrow> error + bool" where
  "is_valid_sleep_entry ext cfg entry start_date end_date =
     (case all_required entry (required_fields cfg) of
        Inl e \<Rightarrow> Inl e
      | Inr False \<Rightarrow> Inr False
      | Inr True \<Rightarrow>
          (case getitem (VDict entry) (vitals_timestamp cfg) of
             Inl e \<Rightarrow> Inl e
           | Inr raw \<Rightarrow>
               (case is_valid_date ext (RawTimestamp raw) start_date end_date of
                  Inl e \<Rightarrow> Inl e
                | Inr valid_date \<Rightarrow>
                    (case get_nested_value (VDict entry) (sleep_key_sleep_stages cfg) of
                       Inl e \<Rightarrow> Inl e
                     | Inr r \<Rightarrow>
                         (case py_contains ''light'' r of
                            Inl e \<Rightarrow> Inl e
                          | Inr light_exists \<Rightarrow> Inr (valid_date \<and> light_exists))))))"

section \<open>The vitals stream extractor: \<^verbatim>\<open>FitbitExtractor.extract_vitals_data\<close>\<close>

text \<open>
  \<^verbatim>\<open>
  extracted_count = valid_count = 0
  for entry in vitals_data:
      timestamp = convert_timestamp(
          entry[self.config.vitals.timestamp],
          self.config.timezone, self.config.use_seconds)
      value = self.get_nested_value(entry, key)
      extracted_count += 1
      if value >= min_valid:
          valid_count += 1
          if valid_count % 15 == 0:
              logger.debug(f"{timestamp}: {vitals_type} {value}")
          yield timestamp, value
  logger.info(
      f"Extracted {valid_count} valid {vitals_type} entries out of "
      f"{extracted_count}")
  \<close>
  The state of the generator is its two counters, the pairs yielded so far and the
  messages logged so far. A debug message keeps its three parts, since the text of an
  instant is not known here.
\<close>

datatype 'ts log = Debug 'ts string resolved | Info string

record 'ts vitals_state =
  extracted_count :: nat
  valid_count :: nat
  yielded :: "('ts \<times> resolved) list"
  logged :: "'ts log list"

definition vitals_init :: "'ts vitals_state" where
  "vitals_init = \<lparr>extracted_count = 0, valid_count = 0, yielded = [], logged = []\<rparr>"

text \<open>One turn of the loop: the state after it, and the exception if it raised.\<close>

definition vitals_step ::
  "('tz, 'ts) collaborators \<Rightarrow> 'tz config \<Rightarrow> key_path \<Rightarrow> string \<Rightarrow> int \<Rightarrow> entry \<Rightarrow>
   'ts vitals_state \<Rightarrow> 'ts vitals_state \<times> error option" where
  "vitals_step ext cfg key vitals_type min_valid entry st =
     (case getitem (VDict entry) (vitals_timestamp cfg) of
        Inl e \<Rightarrow> (st, Some e)
      | Inr raw \<Rightarrow>
          (case convert_timestamp ext raw (timezone cfg) (use_seconds cfg) of
             Inl e \<Rightarrow> (st, Some e)
           | Inr timestamp \<Rightarrow>
               (case get_nested_value (VDict entry) key of
                  Inl e \<Rightarrow> (st, Some e)
                | Inr v \<Rightarrow>
                    (let st1 = st\<lparr>extracted_count := extracted_count st + 1\<rparr> in
                     (case py_ge v min_valid of
                        Inl e \<Rightarrow> (st1, Some e)
                      | Inr False \<Rightarrow> (st1, None)
                      | Inr True \<Rightarrow>
                          (let st2 = st1\<lparr>valid_count := valid_count st1 + 1\<rparr>;
                               st3 = (if valid_count st2 mod 15 = 0
                                      then st2\<lparr>logged := logged st2 @ [Debug timestamp vitals_type v]\<rparr>
                                      else st2)
                           in (st3\<lparr>yielded := yielded st3 @ [(timestamp, v)]\<rparr>, None)))))))"

fun vitals_loop ::
  "('tz, 'ts) collaborators \<Rightarrow> 'tz config \<Rightarrow> key_path \<Rightarrow> string \<Rightarrow> int \<Rightarrow> entry list \<Rightarrow>
   'ts vitals_state \<Rightarrow> 'ts vitals_state \<times> error option" where
  "vitals_loop ext cfg key vitals_type min_valid [] st = (st, None)"
| "vitals_loop ext cfg key vitals_type min_valid (entry # entries) st =
     (case vitals_step ext cfg key vitals_type min_valid entry st of
        (st', Some e) \<Rightarrow> (st', Some e)
      | (st', None) \<Rightarrow> vitals_loop ext cfg key vitals_type min_valid entries st')"

definition summary :: "nat \<Rightarrow> string \<Rightarrow> nat \<Rightarrow> string" where
  "summary valid vitals_type extracted =
     ''Extracted '' @ str_nat valid @ '' valid '' @ vitals_type @ '' entries out of '' @
     str_nat extracted"

text \<open>The whole generator, on an input stream that may itself end in an exception: the
  summary is logged only when the input is exhausted normally.\<close>

definition extract_vitals_data ::
  "('tz, 'ts) collaborators \<Rightarrow> 'tz config \<Rightarrow> entry stream \<Rightarrow> key_path \<Rightarrow> string \<Rightarrow> int \<Rightarrow>
   'ts vitals_state \<times> error option" where
  "extract_vitals_data ext cfg vitals_data key vitals_type min_valid =
     (case vitals_loop ext cfg key vitals_type min_valid (fst vitals_data) vitals_init of
        (st, Some e) \<Rightarrow> (st, Some e)
      | (st, None) \<Rightarrow>
          (case snd vitals_data of
             Some e \<Rightarrow> (st, Some e)
           | None \<Rightarrow>
               (st\<lparr>logged := logged st @
                     [Info (summary (valid_count st) vitals_type (extracted_count st))]\<rparr>,
                None)))"

section \<open>The sleep stream extractor: \<^verbatim>\<open>FitbitExtractor.extract_sleep_data\<close>\<close>

text \<open>
  \<^verbatim>\<open>
  for entry in sleep_data:
      if not self.is_valid_sleep_entry(entry, start_date, end_date):
          continue
      yield {
          sleep_key: transform_func(entry)
          for sleep_key, transform_func in self.config.sleep.sleep_transformations
      }
  \<close>
  The dictionary comprehension stores the results in order; a key that comes twice keeps
  its place and takes the later value.
\<close>

fun dict_set :: "entry \<Rightarrow> key \<Rightarrow> pyval \<Rightarrow> entry" where
  "dict_set [] k v = [(k, v)]"
| "dict_set ((k', v') # kvs) k v =
     (if k' = k then (k, v) # kvs else (k', v') # dict_set kvs k v)"

fun sleep_record ::
  "(key \<times> (entry \<Rightarrow> error + pyval)) list \<Rightarrow> entry \<Rightarrow> entry \<Rightarrow> error + entry" where
  "sleep_record [] entry acc = Inr acc"
| "sleep_record ((sleep_key, transform_func) # ts) entry acc =
     (case transform_func entry of
        Inl e \<Rightarrow> Inl e
      | Inr v \<Rightarrow> sleep_record ts entry (dict_set acc sleep_key v))"

fun extract_sleep_data ::
  "('tz, 'ts) collaborators \<Rightarrow> 'tz config \<Rightarrow> entry list \<Rightarrow> date \<Rightarrow> date \<Rightarrow> entry stream" where
  "extract_sleep_data ext cfg [] start_date end_date = ([], None)"
| "extract_sleep_data ext cfg (entry # entries) start_date end_date =
     (case is_valid_sleep_entry ext cfg entry start_date end_date of
        Inl e \<Rightarrow> ([], Some e)
      | Inr False \<Rightarrow> extract_sleep_data ext cfg entries start_date end_date
      | Inr True \<Rightarrow>
          (case sleep_record (sleep_sleep_transformations cfg) entry [] of
             Inl e \<Rightarrow> ([], Some e)
           | Inr r \<Rightarrow>
               (case extract_sleep_data ext cfg entries start_date end_date of
                  (rs, outcome) \<Rightarrow> (r # rs, outcome))))"

section \<open>The source collector\<close>

text \<open>
  \<^verbatim>\<open>
  def collect_vitals_data(self, vitals_files, start_date, end_date,
                          vitals_key, vitals_type, min_valid):
      yield (
          (timestamp, data)
          for file in vitals_files
          for timestamp, data in self.extract_vitals_data(
              read_file(file), vitals_key, vitals_type, min_valid)
          if is_valid_date(timestamp.datetime.date(), start_date, end_date)
      )
  \<close>
  The generator expression inside, consumed to its end, is \<open>collect_vitals_pairs\<close>: the
  pairs of each file in turn, each tested on its date; the first exception, of the test or
  of the extraction, ends it. Only the pairs and the outcome are kept here, not the
  messages. \<open>collect_vitals_data\<close> itself has one \<^verbatim>\<open>yield\<close>, of that generator.
\<close>

fun date_filter ::
  "('tz, 'ts) collaborators \<Rightarrow> date \<Rightarrow> date \<Rightarrow> ('ts \<times> resolved) list \<Rightarrow>
   ('ts \<times> resolved) stream" where
  "date_filter ext start_date end_date [] = ([], None)"
| "date_filter ext start_date end_date ((timestamp, data) # rest) =
     (case datetime_date ext timestamp of
        Inl e \<Rightarrow> ([], Some e)
      | Inr day \<Rightarrow>
          (case is_valid_date ext (DateValue day) start_date end_date of
             Inl e \<Rightarrow> ([], Some e)
           | Inr ok \<Rightarrow>
               (case date_filter ext start_date end_date rest of
                  (ys, outcome) \<Rightarrow> ((if ok then [(timestamp, data)] else []) @ ys, outcome))))"

fun collect_vitals_pairs ::
  "('tz, 'ts) collaborators \<Rightarrow> 'tz config \<Rightarrow> string list \<Rightarrow> date \<Rightarrow> date \<Rightarrow> key_path \<Rightarrow>
   string \<Rightarrow> int \<Rightarrow> ('ts \<times> resolved) stream" where
  "collect_vitals_pairs ext cfg [] start_date end_date vitals_key vitals_type min_valid =
     ([], None)"
| "collect_vitals_pairs ext cfg (file # files) start_date end_date vitals_key vitals_type
     min_valid =
     (case extract_vitals_data ext cfg (read_file ext file) vitals_key vitals_type min_valid of
        (st, raised) \<Rightarrow>
          (case date_filter ext start_date end_date (yielded st) of
             (ys, Some e) \<Rightarrow> (ys, Some e)
           | (ys, None) \<Rightarrow>
               (case raised of
                  Some e \<Rightarrow> (ys, Some e)
                | None \<Rightarrow>
                    (case collect_vitals_pairs ext cfg files start_date end_date vitals_key
                            vitals_type min_valid of
                       (zs, outcome) \<Rightarrow> (ys @ zs, outcome)))))"

definition collect_vitals_data ::
  "('tz, 'ts) collaborators \<Rightarrow> 'tz config \<Rightarrow> string list \<Rightarrow> date \<Rightarrow> date \<Rightarrow> key_path \<Rightarrow>
   string \<Rightarrow> int \<Rightarrow> (('ts \<times> resolved) stream) stream" where
  "collect_vitals_data ext cfg vitals_files start_date end_date vitals_key vitals_type min_valid =
     ([collect_vitals_pairs ext cfg vitals_files start_date end_date vitals_key vitals_type
         min_valid], None)"

text \<open>
  \<^verbatim>\<open>
  def collect_sleep_data(self, sleep_files, start_date, end_date):
      for file in sleep_files:
          sleep_data = list(
              read_file(file) if file.suffix == "csv" else read_file(file))
          yield from self.extract_sleep_data(sleep_data, start_date, end_date)
  \<close>
\<close>

fun collect_sleep_data ::
  "('tz, 'ts) collaborators \<Rightarrow> 'tz config \<Rightarrow> string list \<Rightarrow> date \<Rightarrow> date \<Rightarrow> entry stream" where
  "collect_sleep_data ext cfg [] start_date end_date = ([], None)"
| "collect_sleep_data ext cfg (file # files) start_date end_date =
     (case read_file ext file of
        (sleep_data, Some e) \<Rightarrow> ([], Some e)
      | (sleep_data, None) \<Rightarrow>
          (case extract_sleep_data ext cfg sleep_data start_date end_date of
             (ys, Some e) \<Rightarrow> (ys, Some e)
           | (ys, None) \<Rightarrow>
               (case collect_sleep_data ext cfg files start_date end_date of
                  (zs, outcome) \<Rightarrow> (ys @ zs, outcome))))"

definition SPO2_MIN_VALID :: int where
  "SPO2_MIN_VALID = 75"

definition BPM_MIN_VALID :: int where
  "BPM_MIN_VALID = 50"

definition extract_data ::
  "('tz, 'ts) collaborators \<Rightarrow> 'tz config \<Rightarrow> string list \<Rightarrow> string list \<Rightarrow> string list \<Rightarrow>
   date \<Rightarrow> date \<Rightarrow>
   (('ts \<times> resolved) stream) stream \<times> (('ts \<times> resolved) stream) stream \<times> entry stream" where
  "extract_data ext cfg spo2_files bpm_files sleep_files start_date end_date =
     (collect_vitals_data ext cfg spo2_files start_date end_date (vitals_spo2_key cfg)
        ''SpO2'' SPO2_MIN_VALID,
      collect_vitals_data ext cfg bpm_files start_date end_date (vitals_bpm_key cfg)
        ''Heart rate'' BPM_MIN_VALID,
      collect_sleep_data ext cfg sleep_files start_date end_date)"

section \<open>The handler registry: \<^verbatim>\<open>DataHandler.__init_subclass__\<close>\<close>

text \<open>
  \<^verbatim>\<open>
  class DataHandler:
      package = "fitbit2oscar"
      _registry: ClassVar[dict[str, type["DataHandler"]]] = {}

      @classmethod
      def __init_subclass__(cls, **kwargs):
          super().__init_subclass__(**kwargs)
          _package = cls.__module__.split(".")[-2]
          if _package in cls._registry:
              raise ValueError(f"Data handler '{_package}' already exists")
          cls.package = _package
          cls._registry[_package] = cls
  \<close>
  A handler class is known by its name, the dotted name of the module that defines it and
  its \<^verbatim>\<open>package\<close> attribute. The registry is the one dictionary shared by all classes.
\<close>

record handler_class =
  cls_name :: string
  cls_module :: string
  package :: string

type_synonym registry = "string \<rightharpoonup> handler_class"

definition module_package :: "string \<Rightarrow> error + string" where
  "module_package m = seq_index (split_on CHR ''.'' m) (- 2)"

definition already_exists :: "string \<Rightarrow> error" where
  "already_exists p = ValueError (''Data handler '' @ [CHR 0x27] @ p @ [CHR 0x27] @ '' already exists'')"

definition init_subclass :: "registry \<Rightarrow> handler_class \<Rightarrow> error + registry" where
  "init_subclass reg cls =
     (case module_package (cls_module cls) of
        Inl e \<Rightarrow> Inl e
      | Inr p \<Rightarrow>
          (case reg p of
             Some c \<Rightarrow> Inl (already_exists p)
           | None \<Rightarrow> Inr (reg(p \<mapsto> cls\<lparr>package := p\<rparr>))))"

text \<open>Class statements executed one after the other, as the handler modules are imported:
  the first exception stops the program.\<close>

fun define_classes :: "registry \<Rightarrow> handler_class list \<Rightarrow> error + registry" where
  "define_classes reg [] = Inr reg"
| "define_classes reg (cls # rest) =
     (case init_subclass reg cls of
        Inl e \<Rightarrow> Inl e
      | Inr reg' \<Rightarrow> define_classes reg' rest)"

section \<open>The resolver and the stage subtree as the specification words them\<close>

text \<open>
  The specification's resolver: ``walk the mapping one key at a time; if a key is absent
  or the current value is not indexable, abort the walk and return the value as last
  successfully reached''. It is compared with \<open>walk\<close> below.
\<close>

fun spec_abort_walk :: "pyval \<Rightarrow> key list \<Rightarrow> pyval" where
  "spec_abort_walk data [] = data"
| "spec_abort_walk data (k # ks) =
     (case getitem data k of
        Inr v \<Rightarrow> spec_abort_walk v ks
      | Inl e \<Rightarrow> data)"




section \<open>Predicates used to state the properties\<close>

text \<open>A record has a reading \<open>(t, v)\<close> when its timestamp field is present and is
  normalised to the instant \<open>t\<close>, and its value path resolves to the integer \<open>v\<close>.\<close>

definition has_reading ::
  "('tz, 'ts) collaborators \<Rightarrow> 'tz config \<Rightarrow> key_path \<Rightarrow> entry \<Rightarrow> 'ts \<times> int \<Rightarrow> bool" where
  "has_reading ext cfg key entry tv =
     (case getitem (VDict entry) (vitals_timestamp cfg) of
        Inl e \<Rightarrow> False
      | Inr raw \<Rightarrow>
          convert_timestamp ext raw (timezone cfg) (use_seconds cfg) = Inr (fst tv) \<and>
          get_nested_value (VDict entry) key = Inr (Value (VInt (snd tv))))"

text \<open>The pair that the extractor yields for a reading.\<close>

definition pair_of :: "'ts \<times> int \<Rightarrow> 'ts \<times> resolved" where
  "pair_of tv = (fst tv, Value (VInt (snd tv)))"

text \<open>A record passes the threshold when the comparison \<^verbatim>\<open>value >= min_valid\<close> on its
  resolved value is true.\<close>

definition passes_threshold :: "key_path \<Rightarrow> int \<Rightarrow> entry \<Rightarrow> bool" where
  "passes_threshold key min_valid entry =
     (case get_nested_value (VDict entry) key of
        Inl e \<Rightarrow> False
      | Inr v \<Rightarrow> py_ge v min_valid = Inr True)"

section \<open>A concrete configuration, for evaluating the model\<close>

text \<open>
  Instants and raw timestamps are day numbers; the date test is the inclusive window.
  Vitals records look like \<^verbatim>\<open>{"dateTime": t, "value": {"bpm": v}}\<close>, sleep records like
  \<^verbatim>\<open>{"dateTime": t, "levels": {"summary": {...}}}\<close>. No field is required.
\<close>

definition example_ext :: "(unit, int) collaborators" where
  "example_ext =
     \<lparr>read_file = (\<lambda>file. ([], None)),
      convert_timestamp =
        (\<lambda>raw tz secs. case raw of VInt n \<Rightarrow> Inr n | _ \<Rightarrow> Inl (OtherError ''timestamp'')),
      is_valid_date =
        (\<lambda>a s e. case a of
                    DateValue d \<Rightarrow> Inr (s \<le> d \<and> d \<le> e)
                  | RawTimestamp raw \<Rightarrow>
                      (case raw of VInt d \<Rightarrow> Inr (s \<le> d \<and> d \<le> e)
                                 | _ \<Rightarrow> Inl (OtherError ''timestamp''))),
      datetime_date = (\<lambda>t. Inr t)\<rparr>"

definition example_cfg :: "unit config" where
  "example_cfg =
     \<lparr>required_fields = [],
      vitals_timestamp = KStr ''dateTime'',
      vitals_spo2_key = PathStr ''value.spo2'',
      vitals_bpm_key = PathStr ''value.bpm'',
      sleep_key_sleep_stages = PathStr ''levels.summary'',
      sleep_sleep_transformations =
        [(KStr ''start'', (\<lambda>entry. getitem (VDict entry) (KStr ''dateTime'')))],
      timezone = (),
      use_seconds = True\<rparr>"

definition bpm_record :: "int \<Rightarrow> int \<Rightarrow> entry" where
  "bpm_record t v =
     [(KStr ''dateTime'', VInt t), (KStr ''value'', VDict [(KStr ''bpm'', VInt v)])]"

definition twenty_values :: "int list" where
  "twenty_values =
     [62, 48, 71, 50, 49, 88, 90, 45, 66, 73, 51, 30, 95, 102, 58, 47, 64, 77, 81, 69]"


section \<open>Properties of the resolver\<close>

lemma walk_append:
  "walk d (xs @ ys) = (case walk d xs of Inl e \<Rightarrow> Inl e | Inr v \<Rightarrow> walk v ys)"
  by (induction xs arbitrary: d) (auto split: sum.splits)

lemma walk_all_fail:
  "list_all (\<lambda>k. getitem v k = Inl KeyError \<or> getitem v k = Inl TypeError) ks \<Longrightarrow>
   walk v ks = Inr v"
  by (induction ks) auto


text \<open>
  Claim C1, as the code has it. The walk does not stop at a key that is absent or that the
  current value cannot be indexed with (\<^verbatim>\<open>KeyError\<close>, \<^verbatim>\<open>TypeError\<close>): that key is
  skipped, the value reached so far is kept, and the remaining keys of the path are still
  applied to it. So when the keys \<open>ks1\<close> lead to \<open>v\<close> and the next key \<open>k\<close> fails on \<open>v\<close>,
  the result is what the remaining keys \<open>ks2\<close> give from \<open>v\<close>, as a key set if it is a
  mapping; it is \<open>v\<close> itself (the value last successfully reached) when none of the
  remaining keys applies to \<open>v\<close> either.
\<close>

theorem failing_key_is_skipped:
  assumes "path_keys p = Inr (ks1 @ k # ks2)"
    and "walk d ks1 = Inr v"
    and "getitem v k = Inl KeyError \<or> getitem v k = Inl TypeError"
  shows "get_nested_value d p =
           (case walk v ks2 of Inl e \<Rightarrow> Inl e | Inr w \<Rightarrow> Inr (keys_or_value w)) \<and>
         (list_all (\<lambda>k'. getitem v k' = Inl KeyError \<or> getitem v k' = Inl TypeError) ks2 \<longrightarrow>
            get_nested_value d p = Inr (keys_or_value v))"
proof -
  have skip: "walk v (k # ks2) = walk v ks2"
    using assms(3) by auto
  have "walk d (ks1 @ k # ks2) = walk v ks2"
    using assms(2) skip by (simp add: walk_append)
  then have first: "get_nested_value d p =
      (case walk v ks2 of Inl e \<Rightarrow> Inl e | Inr w \<Rightarrow> Inr (keys_or_value w))"
    using assms(1) by (simp add: get_nested_value_def)
  then show ?thesis
    by (simp add: walk_all_fail)
qed

text \<open>Two instances on the record \<^verbatim>\<open>{"summary": {"light": 30}}\<close>: the path
  \<^verbatim>\<open>"levels.summary.light"\<close>, whose first key is absent and whose later keys are applied,
  and the path \<^verbatim>\<open>"levels.stages"\<close>, none of whose keys is present.\<close>

theorem failing_key_is_skipped_witness:
  "path_keys (PathStr ''levels.summary.light'') =
     Inr ([] @ KStr ''levels'' # [KStr ''summary'', KStr ''light'']) \<and>
   getitem (VDict [(KStr ''summary'', VDict [(KStr ''light'', VInt 30)])]) (KStr ''levels'') =
     Inl KeyError \<and>
   get_nested_value (VDict [(KStr ''summary'', VDict [(KStr ''light'', VInt 30)])])
     (PathStr ''levels.summary.light'') = Inr (Value (VInt 30)) \<and>
   get_nested_value (VDict [(KStr ''summary'', VDict [(KStr ''light'', VInt 30)])])
     (PathStr ''levels.stages'') = Inr (DictKeys [KStr ''summary''])"
  using failing_key_is_skipped [of "PathStr ''levels.summary.light''" "[]" "KStr ''levels''"
      "[KStr ''summary'', KStr ''light'']"
      "VDict [(KStr ''summary'', VDict [(KStr ''light'', VInt 30)])]"
      "VDict [(KStr ''summary'', VDict [(KStr ''light'', VInt 30)])]"]
    failing_key_is_skipped [of "PathStr ''levels.stages''" "[]" "KStr ''levels''"
      "[KStr ''stages'']"
      "VDict [(KStr ''summary'', VDict [(KStr ''light'', VInt 30)])]"
      "VDict [(KStr ''summary'', VDict [(KStr ''light'', VInt 30)])]"]
  by (simp add: path_keys_def keys_or_value_def)

text \<open>Where the claim as written fails: on \<^verbatim>\<open>{"summary": {"light": 30}}\<close> and the path
  \<^verbatim>\<open>"levels.summary.light"\<close> the first key is absent; a walk that aborts there returns the
  key set of the record, the code returns 30.\<close>

theorem abort_walk_counterexample:
  "path_keys (PathStr ''levels.summary.light'') =
     Inr [KStr ''levels'', KStr ''summary'', KStr ''light''] \<and>
   get_nested_value (VDict [(KStr ''summary'', VDict [(KStr ''light'', VInt 30)])])
     (PathStr ''levels.summary.light'') = Inr (Value (VInt 30)) \<and>
   keys_or_value
     (spec_abort_walk (VDict [(KStr ''summary'', VDict [(KStr ''light'', VInt 30)])])
        [KStr ''levels'', KStr ''summary'', KStr ''light'']) = DictKeys [KStr ''summary'']"
  by (simp add: get_nested_value_def path_keys_def keys_or_value_def)

text \<open>
  Claim C2 says that resolving a path never raises. The code catches \<^verbatim>\<open>KeyError\<close> and
  \<^verbatim>\<open>TypeError\<close> only. A path given as a sequence that has the key \<^verbatim>\<open>"."\<close> raises
  \<^verbatim>\<open>AttributeError\<close> (a list has no \<^verbatim>\<open>split\<close>), and an integer key out of the range of
  a list raises \<^verbatim>\<open>IndexError\<close>: on \<^verbatim>\<open>{".": 1}\<close> with \<^verbatim>\<open>["."]\<close>, and on
  \<^verbatim>\<open>{"data": [96, 97]}\<close> with \<^verbatim>\<open>["data", 2]\<close>.
\<close>

theorem get_nested_value_raises:
  "get_nested_value (VDict [(KStr ''.'', VInt 1)]) (PathSeq [KStr ''.'']) = Inl AttributeError \<and>
   get_nested_value (VDict [(KStr ''data'', VList [VInt 96, VInt 97])])
     (PathSeq [KStr ''data'', KInt 2]) = Inl IndexError"
  by (simp add: get_nested_value_def path_keys_def seq_index_def)

lemma getitem_str_key_error:
  "getitem d (KStr t) = Inl e \<Longrightarrow> e = KeyError \<or> e = TypeError"
  by (cases d) (auto split: option.splits)

lemma map_of_dict_set:
  "map_of (dict_set kvs k v) k' = (if k' = k then Some v else map_of kvs k')"
  by (induction kvs) auto

lemma keys_dict_set:
  "map fst (dict_set kvs k v) = map fst (dict_set kvs k v')"
  by (induction kvs) auto

lemma walk_other_keys:
  assumes "k \<notin> set ks"
  shows "map_sum id keys_or_value (walk (VDict (dict_set kvs k v)) ks) =
         map_sum id keys_or_value (walk (VDict (dict_set kvs k v')) ks)"
  using assms
proof (induction ks)
  case Nil
  then show ?case by (simp add: keys_or_value_def keys_dict_set [of kvs k v v'])
next
  case (Cons a ks)
  then have "a \<noteq> k" and rest: "k \<notin> set ks" by auto
  then have same: "map_of (dict_set kvs k v) a = map_of (dict_set kvs k v') a"
    by (simp add: map_of_dict_set)
  show ?case
  proof (cases "map_of (dict_set kvs k v') a")
    case None
    with same Cons.IH [OF rest] show ?thesis by simp
  next
    case (Some w)
    with same show ?thesis by simp
  qed
qed

lemma get_nested_value_walk:
  "path_keys p = Inr ks \<Longrightarrow> get_nested_value d p = map_sum id keys_or_value (walk d ks)"
  by (simp add: get_nested_value_def split: sum.splits)

lemma path_keys_no_dot:
  "CHR ''.'' \<notin> set s \<Longrightarrow> path_keys (PathStr s) = Inr (map (\<lambda>c. KStr [c]) s)"
  by (simp add: path_keys_def)

text \<open>
  Claim C10: a path given as a string without a dot is iterated character by character.
  Resolving the empty string gives the value itself, as a key set if it is a mapping.
  Resolving \<open>c # cs\<close> subscripts the current value with the one-character string \<open>c\<close>:
  if that succeeds the rest of the string is resolved from the value found, otherwise
  from the same value. So the whole string is never looked up as a key: for a string of
  more than one character, the result does not depend on what the record holds under the
  key that is the whole string.
\<close>

theorem string_path_without_dot_iterates_characters:
  assumes "CHR ''.'' \<notin> set s"
  shows "get_nested_value d (PathStr s) =
           (case s of
              [] \<Rightarrow> Inr (keys_or_value d)
            | c # cs \<Rightarrow>
                (case getitem d (KStr [c]) of
                   Inr v \<Rightarrow> get_nested_value v (PathStr cs)
                 | Inl e \<Rightarrow> get_nested_value d (PathStr cs))) \<and>
         (1 < length s \<longrightarrow>
            get_nested_value (VDict (dict_set kvs (KStr s) x)) (PathStr s) =
            get_nested_value (VDict (dict_set kvs (KStr s) y)) (PathStr s))"
proof
  show "get_nested_value d (PathStr s) =
           (case s of
              [] \<Rightarrow> Inr (keys_or_value d)
            | c # cs \<Rightarrow>
                (case getitem d (KStr [c]) of
                   Inr v \<Rightarrow> get_nested_value v (PathStr cs)
                 | Inl e \<Rightarrow> get_nested_value d (PathStr cs)))"
  proof (cases s)
    case Nil
    then show ?thesis by (simp add: get_nested_value_def path_keys_def)
  next
    case (Cons c cs)
    with assms have cs: "CHR ''.'' \<notin> set cs" by simp
    show ?thesis
    proof (cases "getitem d (KStr [c])")
      case (Inl e)
      then have "e = KeyError \<or> e = TypeError" by (rule getitem_str_key_error)
      with Inl Cons show ?thesis
        using get_nested_value_walk [OF path_keys_no_dot [OF assms], of d]
          get_nested_value_walk [OF path_keys_no_dot [OF cs], of d]
        by auto
    next
      case (Inr v)
      with Cons show ?thesis
        using get_nested_value_walk [OF path_keys_no_dot [OF assms], of d]
          get_nested_value_walk [OF path_keys_no_dot [OF cs], of v]
        by simp
    qed
  qed
next
  show "1 < length s \<longrightarrow>
            get_nested_value (VDict (dict_set kvs (KStr s) x)) (PathStr s) =
            get_nested_value (VDict (dict_set kvs (KStr s) y)) (PathStr s)"
  proof
    assume "1 < length s"
    then have "KStr s \<notin> set (map (\<lambda>c. KStr [c]) s)" by auto
    then show "get_nested_value (VDict (dict_set kvs (KStr s) x)) (PathStr s) =
            get_nested_value (VDict (dict_set kvs (KStr s) y)) (PathStr s)"
      using walk_other_keys [of "KStr s" "map (\<lambda>c. KStr [c]) s" kvs x y]
      by (simp add: get_nested_value_walk [OF path_keys_no_dot [OF assms]])
  qed
qed

text \<open>
  On \<^verbatim>\<open>{"s": {"p": 7}}\<close> the path \<^verbatim>\<open>"sp"\<close> gives 7 (both characters are applied, in
  order) and \<^verbatim>\<open>"ps"\<close> gives the key set of the inner mapping. The example of the claim:
  \<^verbatim>\<open>"spo2"\<close> against \<^verbatim>\<open>{"spo2": 95}\<close> gives the key set of the record, not 95, and the
  same result as against \<^verbatim>\<open>{"spo2": 1}\<close>.
\<close>

theorem string_path_without_dot_iterates_characters_witness:
  "CHR ''.'' \<notin> set ''sp'' \<and>
   get_nested_value (VDict [(KStr ''s'', VDict [(KStr ''p'', VInt 7)])]) (PathStr ''sp'') =
     Inr (Value (VInt 7)) \<and>
   get_nested_value (VDict [(KStr ''s'', VDict [(KStr ''p'', VInt 7)])]) (PathStr ''ps'') =
     Inr (DictKeys [KStr ''p'']) \<and>
   CHR ''.'' \<notin> set ''spo2'' \<and>
   get_nested_value (VDict [(KStr ''spo2'', VInt 95)]) (PathStr ''spo2'') =
     Inr (DictKeys [KStr ''spo2'']) \<and>
   get_nested_value (VDict [(KStr ''spo2'', VInt 95)]) (PathStr ''spo2'') \<noteq> Inr (Value (VInt 95)) \<and>
   get_nested_value (VDict (dict_set [] (KStr ''spo2'') (VInt 95))) (PathStr ''spo2'') =
   get_nested_value (VDict (dict_set [] (KStr ''spo2'') (VInt 1))) (PathStr ''spo2'')"
proof -
  let ?d = "VDict [(KStr ''s'', VDict [(KStr ''p'', VInt 7)])]"
  have a: "CHR ''.'' \<notin> set ''sp''" and b: "CHR ''.'' \<notin> set ''p''"
    and c: "CHR ''.'' \<notin> set ''''" and e: "CHR ''.'' \<notin> set ''ps''"
    and f: "CHR ''.'' \<notin> set ''s''" and g: "CHR ''.'' \<notin> set ''spo2''"
    and h: "CHR ''.'' \<notin> set ''po2''" and i: "CHR ''.'' \<notin> set ''o2''"
    and j: "CHR ''.'' \<notin> set ''2''"
    by simp_all
  note step = string_path_without_dot_iterates_characters [THEN conjunct1]
  have sp: "get_nested_value ?d (PathStr ''sp'') = Inr (Value (VInt 7))"
    by (simp add: step [OF a] step [OF b] step [OF c] keys_or_value_def)
  have ps: "get_nested_value ?d (PathStr ''ps'') = Inr (DictKeys [KStr ''p''])"
    by (simp add: step [OF e] step [OF f] step [OF c] keys_or_value_def)
  have spo2: "get_nested_value (VDict [(KStr ''spo2'', VInt 95)]) (PathStr ''spo2'') =
      Inr (DictKeys [KStr ''spo2''])"
    by (simp add: step [OF g] step [OF h] step [OF i] step [OF j] step [OF c] keys_or_value_def)
  have indep: "get_nested_value (VDict (dict_set [] (KStr ''spo2'') (VInt 95))) (PathStr ''spo2'') =
      get_nested_value (VDict (dict_set [] (KStr ''spo2'') (VInt 1))) (PathStr ''spo2'')"
    using string_path_without_dot_iterates_characters [OF g, THEN conjunct2, of "[]" "VInt 95" "VInt 1"]
    by simp
  have one: "get_nested_value (VDict [(KStr ''spo2'', VInt 1)]) (PathStr ''spo2'') =
      Inr (DictKeys [KStr ''spo2''])"
    using indep spo2 by simp
  show ?thesis
    by (simp add: sp ps spo2 one)
qed

section \<open>Properties of the vitals stream extractor\<close>

lemma vitals_step_reading:
  assumes "has_reading ext cfg key e tv"
  shows "\<exists>st'. vitals_step ext cfg key vt mv e st = (st', None) \<and>
           extracted_count st' = extracted_count st + 1 \<and>
           valid_count st' = valid_count st + (if mv \<le> snd tv then 1 else 0) \<and>
           yielded st' = yielded st @ (if mv \<le> snd tv then [pair_of tv] else [])"
  using assms
  by (auto simp: has_reading_def vitals_step_def pair_of_def Let_def split: sum.splits)

lemma vitals_loop_append:
  "vitals_loop ext cfg key vt mv (xs @ ys) st =
     (case vitals_loop ext cfg key vt mv xs st of
        (st', Some e) \<Rightarrow> (st', Some e)
      | (st', None) \<Rightarrow> vitals_loop ext cfg key vt mv ys st')"
  by (induction xs arbitrary: st) (auto split: prod.splits option.splits)

lemma vitals_loop_readings:
  "list_all2 (has_reading ext cfg key) es tvs \<Longrightarrow>
   \<exists>st'. vitals_loop ext cfg key vt mv es st = (st', None) \<and>
     extracted_count st' = extracted_count st + length es \<and>
     valid_count st' = valid_count st + length (filter (\<lambda>tv. mv \<le> snd tv) tvs) \<and>
     yielded st' = yielded st @ map pair_of (filter (\<lambda>tv. mv \<le> snd tv) tvs)"
proof (induction es tvs arbitrary: st rule: list_all2_induct)
  case Nil
  then show ?case by simp
next
  case (Cons e es tv tvs)
  obtain st1 where step: "vitals_step ext cfg key vt mv e st = (st1, None)"
    and c1: "extracted_count st1 = extracted_count st + 1"
    and c2: "valid_count st1 = valid_count st + (if mv \<le> snd tv then 1 else 0)"
    and c3: "yielded st1 = yielded st @ (if mv \<le> snd tv then [pair_of tv] else [])"
    using vitals_step_reading [OF Cons.hyps(1)] by blast
  obtain st' where rest: "vitals_loop ext cfg key vt mv es st1 = (st', None)"
    and d1: "extracted_count st' = extracted_count st1 + length es"
    and d2: "valid_count st' = valid_count st1 + length (filter (\<lambda>tv. mv \<le> snd tv) tvs)"
    and d3: "yielded st' = yielded st1 @ map pair_of (filter (\<lambda>tv. mv \<le> snd tv) tvs)"
    using Cons.IH by blast
  have "vitals_loop ext cfg key vt mv (e # es) st = (st', None)"
    using step rest by simp
  then show ?case
    using c1 c2 c3 d1 d2 d3 by simp
qed

lemma vitals_step_counts:
  assumes "vitals_step ext cfg key vt mv e st = (st', r)"
  shows "valid_count st \<le> extracted_count st \<longrightarrow> valid_count st' \<le> extracted_count st'"
  using assms
  by (auto simp: vitals_step_def Let_def split: sum.splits bool.splits if_splits)

lemma vitals_loop_counts:
  "valid_count st \<le> extracted_count st \<Longrightarrow>
   valid_count (fst (vitals_loop ext cfg key vt mv es st)) \<le>
   extracted_count (fst (vitals_loop ext cfg key vt mv es st))"
proof (induction es arbitrary: st)
  case Nil
  then show ?case by simp
next
  case (Cons e es)
  obtain st' r where step: "vitals_step ext cfg key vt mv e st = (st', r)"
    by (cases "vitals_step ext cfg key vt mv e st")
  then have inv: "valid_count st' \<le> extracted_count st'"
    using vitals_step_counts Cons.prems by blast
  show ?case
  proof (cases r)
    case None
    then show ?thesis using step Cons.IH [OF inv] by simp
  next
    case (Some err)
    then show ?thesis using step inv by simp
  qed
qed

lemma vitals_step_finished:
  assumes "vitals_step ext cfg key vt mv e st = (st', None)"
  shows "extracted_count st' = extracted_count st + 1 \<and>
         valid_count st' = valid_count st + (if passes_threshold key mv e then 1 else 0)"
  using assms
  by (auto simp: vitals_step_def passes_threshold_def Let_def
      split: sum.splits bool.splits if_splits)

lemma vitals_loop_finished:
  "vitals_loop ext cfg key vt mv es st = (st', None) \<Longrightarrow>
   extracted_count st' = extracted_count st + length es \<and>
   valid_count st' = valid_count st + length (filter (passes_threshold key mv) es)"
proof (induction es arbitrary: st)
  case Nil
  then show ?case by simp
next
  case (Cons e es)
  obtain st1 r where step: "vitals_step ext cfg key vt mv e st = (st1, r)"
    by (cases "vitals_step ext cfg key vt mv e st")
  with Cons.prems have r: "r = None" and rest: "vitals_loop ext cfg key vt mv es st1 = (st', None)"
    by (cases r; simp)+
  from step r have "extracted_count st1 = extracted_count st + 1 \<and>
      valid_count st1 = valid_count st + (if passes_threshold key mv e then 1 else 0)"
    using vitals_step_finished by blast
  with Cons.IH [OF rest] show ?case by simp
qed

lemma filter_all_length:
  "(length (filter P xs) = length xs) = (\<forall>x\<in>set xs. P x)"
  by (metis filter_id_conv filter_True length_filter_less not_less_iff_gr_or_eq)

lemma summary_15_20:
  "summary 15 ''Heart rate'' 20 = ''Extracted 15 valid Heart rate entries out of 20''"
  by (simp add: summary_def digit_char_def)

lemmas example_simps =
  extract_vitals_data_def vitals_step_def vitals_init_def bpm_record_def example_ext_def
  example_cfg_def get_nested_value_def path_keys_def keys_or_value_def has_reading_def
  Let_def

text \<open>
  Claim C5: the threshold is inclusive. Take a record with a reading \<open>(t, v)\<close> that is
  processed after the records \<open>xs\<close>. If \<open>v\<close> equals the minimum, or is above it, the pairs
  yielded are those of \<open>xs\<close> followed by \<open>(t, v)\<close>; if \<open>v\<close> is strictly below the minimum,
  they are those of \<open>xs\<close> and nothing else. This holds for every minimum, so for 75
  (\<open>SPO2_MIN_VALID\<close>) and 50 (\<open>BPM_MIN_VALID\<close>).
\<close>

theorem threshold_is_inclusive:
  assumes "extract_vitals_data ext cfg (xs, None) key vt mv = (st, None)"
    and "has_reading ext cfg key e (t, v)"
  shows "\<exists>st'. extract_vitals_data ext cfg (xs @ [e], None) key vt mv = (st', None) \<and>
           (v = mv \<longrightarrow> yielded st' = yielded st @ [(t, Value (VInt v))]) \<and>
           (v < mv \<longrightarrow> yielded st' = yielded st) \<and>
           (mv < v \<longrightarrow> yielded st' = yielded st @ [(t, Value (VInt v))])"
proof -
  obtain st0 r where loop: "vitals_loop ext cfg key vt mv xs vitals_init = (st0, r)"
    by (cases "vitals_loop ext cfg key vt mv xs vitals_init")
  with assms(1) have r: "r = None" and y0: "yielded st = yielded st0"
    by (cases r; auto simp: extract_vitals_data_def)+
  obtain st1 where step: "vitals_step ext cfg key vt mv e st0 = (st1, None)"
    and y1: "yielded st1 = yielded st0 @ (if mv \<le> snd (t, v) then [pair_of (t, v)] else [])"
    using vitals_step_reading [OF assms(2), of vt mv st0] by blast
  let ?st = "st1\<lparr>logged := logged st1 @
      [Info (summary (valid_count st1) vt (extracted_count st1))]\<rparr>"
  have "vitals_loop ext cfg key vt mv (xs @ [e]) vitals_init = (st1, None)"
    using loop r step by (simp add: vitals_loop_append)
  then have "extract_vitals_data ext cfg (xs @ [e], None) key vt mv = (?st, None)"
    by (simp add: extract_vitals_data_def)
  moreover have "yielded ?st = yielded st @ (if mv \<le> v then [(t, Value (VInt v))] else [])"
    using y0 y1 by (simp add: pair_of_def)
  ultimately show ?thesis
    by auto
qed

text \<open>With the heart-rate minimum, a record of value 50 after one of value 60 is yielded,
  a record of value 49 is not.\<close>

theorem threshold_is_inclusive_witness:
  "yielded (fst (extract_vitals_data example_ext example_cfg
      ([bpm_record 1 60, bpm_record 2 50], None) (PathStr ''value.bpm'') ''Heart rate''
      BPM_MIN_VALID)) = [(1, Value (VInt 60)), (2, Value (VInt 50))] \<and>
   yielded (fst (extract_vitals_data example_ext example_cfg
      ([bpm_record 1 60, bpm_record 2 49], None) (PathStr ''value.bpm'') ''Heart rate''
      BPM_MIN_VALID)) = [(1, Value (VInt 60))]"
proof -
  let ?run = "\<lambda>es. extract_vitals_data example_ext example_cfg (es, None)
      (PathStr ''value.bpm'') ''Heart rate'' BPM_MIN_VALID"
  have prefix: "?run [bpm_record 1 60] = (fst (?run [bpm_record 1 60]), None)"
    by (simp add: example_simps BPM_MIN_VALID_def)
  have y: "yielded (fst (?run [bpm_record 1 60])) = [(1, Value (VInt 60))]"
    by (simp add: example_simps BPM_MIN_VALID_def)
  have r50: "has_reading example_ext example_cfg (PathStr ''value.bpm'') (bpm_record 2 50) (2, 50)"
    by (simp add: example_simps)
  have r49: "has_reading example_ext example_cfg (PathStr ''value.bpm'') (bpm_record 2 49) (2, 49)"
    by (simp add: example_simps)
  from threshold_is_inclusive [OF prefix r50] threshold_is_inclusive [OF prefix r49] y
  show ?thesis
    by (auto simp: BPM_MIN_VALID_def)
qed

text \<open>
  Claim C6: on 20 heart-rate records, each with a reading, 5 of them with a value below
  50, the extractor with the minimum 50 ends normally, yields the 15 pairs of the other
  records in input order, and its last message is the summary
  \<^verbatim>\<open>Extracted 15 valid Heart rate entries out of 20\<close>. (The extractor itself does not
  look at the date window.)
\<close>

theorem twenty_records_five_below:
  assumes "length es = 20"
    and "list_all2 (has_reading ext cfg key) es tvs"
    and "length (filter (\<lambda>tv. snd tv < 50) tvs) = 5"
  shows "\<exists>st. extract_vitals_data ext cfg (es, None) key ''Heart rate'' BPM_MIN_VALID =
             (st, None) \<and>
           yielded st = map pair_of (filter (\<lambda>tv. 50 \<le> snd tv) tvs) \<and>
           length (yielded st) = 15 \<and>
           last (logged st) = Info ''Extracted 15 valid Heart rate entries out of 20''"
proof -
  obtain st0 where loop: "vitals_loop ext cfg key ''Heart rate'' 50 es vitals_init = (st0, None)"
    and e: "extracted_count st0 = length es"
    and v: "valid_count st0 = length (filter (\<lambda>tv. 50 \<le> snd tv) tvs)"
    and y: "yielded st0 = map pair_of (filter (\<lambda>tv. 50 \<le> snd tv) tvs)"
    using vitals_loop_readings [OF assms(2), of "''Heart rate''" 50 vitals_init]
    by (auto simp: vitals_init_def)
  have len: "length tvs = 20"
    using assms(1,2) by (simp add: list_all2_lengthD [symmetric])
  have compl: "filter (\<lambda>tv. \<not> 50 \<le> snd tv) tvs = filter (\<lambda>tv. snd tv < 50) tvs"
    by (simp add: not_le)
  have "length (filter (\<lambda>tv. 50 \<le> snd tv) tvs) +
      length (filter (\<lambda>tv. \<not> 50 \<le> snd tv) tvs) = length tvs"
    by (rule sum_length_filter_compl)
  then have fifteen: "length (filter (\<lambda>tv. 50 \<le> snd tv) tvs) = 15"
    unfolding compl using assms(3) len by linarith
  let ?st = "st0\<lparr>logged := logged st0 @
      [Info (summary (valid_count st0) ''Heart rate'' (extracted_count st0))]\<rparr>"
  have run: "extract_vitals_data ext cfg (es, None) key ''Heart rate'' BPM_MIN_VALID = (?st, None)"
    using loop by (simp add: extract_vitals_data_def BPM_MIN_VALID_def)
  have "last (logged ?st) = Info (summary 15 ''Heart rate'' 20)"
    using e v fifteen assms(1) by simp
  then have "last (logged ?st) = Info ''Extracted 15 valid Heart rate entries out of 20''"
    by (simp only: summary_15_20)
  moreover have "yielded ?st = map pair_of (filter (\<lambda>tv. 50 \<le> snd tv) tvs)"
    using y by simp
  moreover have "length (yielded ?st) = 15"
    using y fifteen by simp
  ultimately show ?thesis
    using run by blast
qed

text \<open>Twenty records with the values of \<open>twenty_values\<close>, five of which (48, 49, 45, 30
  and 47) are below 50.\<close>

theorem twenty_records_five_below_witness:
  "snd (extract_vitals_data example_ext example_cfg
       (map (\<lambda>(t, v). bpm_record t v) (zip [1..20] twenty_values), None)
       (PathStr ''value.bpm'') ''Heart rate'' BPM_MIN_VALID) = None \<and>
   map snd (yielded (fst (extract_vitals_data example_ext example_cfg
       (map (\<lambda>(t, v). bpm_record t v) (zip [1..20] twenty_values), None)
       (PathStr ''value.bpm'') ''Heart rate'' BPM_MIN_VALID))) =
     map (\<lambda>v. Value (VInt v)) [62, 71, 50, 88, 90, 66, 73, 51, 95, 102, 58, 64, 77, 81, 69] \<and>
   last (logged (fst (extract_vitals_data example_ext example_cfg
       (map (\<lambda>(t, v). bpm_record t v) (zip [1..20] twenty_values), None)
       (PathStr ''value.bpm'') ''Heart rate'' BPM_MIN_VALID))) =
     Info ''Extracted 15 valid Heart rate entries out of 20''"
proof -
  have up: "[1..20] = [1,2,3,4,5,6,7,8,9,10,11,12,13,14,15,16,17,18,19,20::int]"
    by code_simp
  have a: "length (map (\<lambda>(t, v). bpm_record t v) (zip [1..20] twenty_values)) = 20"
    by (simp add: up twenty_values_def)
  have b: "list_all2 (has_reading example_ext example_cfg (PathStr ''value.bpm''))
      (map (\<lambda>(t, v). bpm_record t v) (zip [1..20] twenty_values)) (zip [1..20] twenty_values)"
    by (simp add: up twenty_values_def example_simps)
  have c: "length (filter (\<lambda>tv. snd tv < 50) (zip [1..20] twenty_values)) = 5"
    by (simp add: up twenty_values_def)
  have d: "map snd (map pair_of (filter (\<lambda>tv. 50 \<le> snd tv) (zip [1..20] twenty_values))) =
      map (\<lambda>v. Value (VInt v)) [62, 71, 50, 88, 90, 66, 73, 51, 95, 102, 58, 64, 77, 81, 69]"
    by (simp add: up twenty_values_def pair_of_def)
  from twenty_records_five_below [OF a b c] d show ?thesis
    by auto
qed

text \<open>
  Claim C8: after any number of records of the input, the valid counter is at most the
  extracted counter; and when the generator has consumed its whole input and ended
  normally, the two are equal exactly when every record passed the threshold.
\<close>

theorem valid_count_le_extracted_count:
  "(\<forall>n. valid_count (fst (vitals_loop ext cfg key vt mv (take n es) vitals_init)) \<le>
        extracted_count (fst (vitals_loop ext cfg key vt mv (take n es) vitals_init))) \<and>
   (\<forall>st. extract_vitals_data ext cfg (es, None) key vt mv = (st, None) \<longrightarrow>
      (valid_count st = extracted_count st) = (\<forall>e\<in>set es. passes_threshold key mv e))"
proof (intro conjI allI impI)
  fix n
  show "valid_count (fst (vitals_loop ext cfg key vt mv (take n es) vitals_init)) \<le>
        extracted_count (fst (vitals_loop ext cfg key vt mv (take n es) vitals_init))"
    by (rule vitals_loop_counts) (simp add: vitals_init_def)
next
  fix st
  assume run: "extract_vitals_data ext cfg (es, None) key vt mv = (st, None)"
  obtain st0 r where loop: "vitals_loop ext cfg key vt mv es vitals_init = (st0, r)"
    by (cases "vitals_loop ext cfg key vt mv es vitals_init")
  with run have r: "r = None"
    and st: "valid_count st = valid_count st0" "extracted_count st = extracted_count st0"
    by (cases r; auto simp: extract_vitals_data_def)+
  from loop r have "extracted_count st0 = length es \<and>
      valid_count st0 = length (filter (passes_threshold key mv) es)"
    using vitals_loop_finished [of ext cfg key vt mv es vitals_init st0]
    by (simp add: vitals_init_def)
  with st show "(valid_count st = extracted_count st) = (\<forall>e\<in>set es. passes_threshold key mv e)"
    by (simp add: filter_all_length)
qed

text \<open>Two runs on two records: one record below the minimum (counters 1 and 2), and both
  at or above it (counters equal).\<close>

theorem valid_count_le_extracted_count_witness:
  "snd (extract_vitals_data example_ext example_cfg ([bpm_record 1 60, bpm_record 2 49], None)
      (PathStr ''value.bpm'') ''Heart rate'' 50) = None \<and>
   valid_count (fst (extract_vitals_data example_ext example_cfg
      ([bpm_record 1 60, bpm_record 2 49], None) (PathStr ''value.bpm'') ''Heart rate'' 50)) = 1 \<and>
   extracted_count (fst (extract_vitals_data example_ext example_cfg
      ([bpm_record 1 60, bpm_record 2 49], None) (PathStr ''value.bpm'') ''Heart rate'' 50)) = 2 \<and>
   \<not> list_all (passes_threshold (PathStr ''value.bpm'') 50) [bpm_record 1 60, bpm_record 2 49] \<and>
   snd (extract_vitals_data example_ext example_cfg ([bpm_record 1 60, bpm_record 2 50], None)
      (PathStr ''value.bpm'') ''Heart rate'' 50) = None \<and>
   valid_count (fst (extract_vitals_data example_ext example_cfg
      ([bpm_record 1 60, bpm_record 2 50], None) (PathStr ''value.bpm'') ''Heart rate'' 50)) =
   extracted_count (fst (extract_vitals_data example_ext example_cfg
      ([bpm_record 1 60, bpm_record 2 50], None) (PathStr ''value.bpm'') ''Heart rate'' 50)) \<and>
   list_all (passes_threshold (PathStr ''value.bpm'') 50) [bpm_record 1 60, bpm_record 2 50]"
  using valid_count_le_extracted_count [of example_ext example_cfg "PathStr ''value.bpm''"
      "''Heart rate''" 50 "[bpm_record 1 60, bpm_record 2 49]"]
    valid_count_le_extracted_count [of example_ext example_cfg "PathStr ''value.bpm''"
      "''Heart rate''" 50 "[bpm_record 1 60, bpm_record 2 50]"]
  by (simp add: example_simps passes_threshold_def)

section \<open>Properties of the sleep validator and extractor\<close>



text \<open>
  Claim C4 says that a sleep record without the timestamp field is skipped without an
  exception and that the following records are processed. Take the record
  \<^verbatim>\<open>{"levels": {"summary": {"light": 30}}}\<close>, which has no \<^verbatim>\<open>"dateOfSleep"\<close>, with that
  field as the timestamp. When the field is required, its path resolves to the key view of
  the record, and the test \<^verbatim>\<open>... in entry\<close> on a key view raises \<^verbatim>\<open>TypeError\<close>; when no field
  is required, \<^verbatim>\<open>entry[timestamp]\<close> raises \<^verbatim>\<open>KeyError\<close>. In both cases the generator ends
  with the exception, whatever records follow.
\<close>

theorem missing_timestamp_raises:
  "extract_sleep_data ext
     (cfg\<lparr>required_fields := [PathSeq [KStr ''dateOfSleep'']],
          vitals_timestamp := KStr ''dateOfSleep''\<rparr>)
     ([(KStr ''levels'', VDict [(KStr ''summary'', VDict [(KStr ''light'', VInt 30)])])] # rest)
     s e = ([], Some TypeError) \<and>
   extract_sleep_data ext
     (cfg\<lparr>required_fields := [], vitals_timestamp := KStr ''dateOfSleep''\<rparr>)
     ([(KStr ''levels'', VDict [(KStr ''summary'', VDict [(KStr ''light'', VInt 30)])])] # rest)
     s e = ([], Some KeyError)"
  by (simp add: is_valid_sleep_entry_def get_nested_value_def path_keys_def keys_or_value_def)




section \<open>Properties of the source collector\<close>

text \<open>
  Claim C3 says that \<open>collect_vitals_data\<close> produces the pairs themselves, not a nested
  sequence of pairs. Its only \<^verbatim>\<open>yield\<close> has the generator expression as its operand:
  for every list of files the sequence produced has exactly one element, the nested
  sequence of pairs; for the empty list of files it is one empty nested sequence, where a
  flat stream would be empty.
\<close>

theorem collect_vitals_data_yields_one_generator:
  "fst (collect_vitals_data ext cfg files s e key vt mv) =
     [collect_vitals_pairs ext cfg files s e key vt mv] \<and>
   length (fst (collect_vitals_data ext cfg files s e key vt mv)) = 1 \<and>
   collect_vitals_data ext cfg [] s e key vt mv = ([([], None)], None)"
  by (simp add: collect_vitals_data_def)

section \<open>Properties of the handler registry\<close>

lemma init_subclass_Inr:
  assumes "init_subclass reg c = Inr reg'"
  shows "\<exists>p. module_package (cls_module c) = Inr p \<and> reg p = None \<and>
             reg' = reg(p \<mapsto> c\<lparr>package := p\<rparr>)"
  using assms by (auto simp: init_subclass_def split: sum.splits option.splits)

lemma init_subclass_taken:
  "module_package (cls_module c) = Inr p \<Longrightarrow> reg p = Some h \<Longrightarrow>
   init_subclass reg c = Inl (already_exists p)"
  by (simp add: init_subclass_def)

lemma define_classes_append:
  "define_classes reg (xs @ ys) =
     (case define_classes reg xs of Inl e \<Rightarrow> Inl e | Inr r \<Rightarrow> define_classes r ys)"
  by (induction xs arbitrary: reg) (auto split: sum.splits)

lemma define_classes_keeps:
  "define_classes reg cs = Inr reg' \<Longrightarrow> reg p = Some h \<Longrightarrow> reg' p = Some h"
proof (induction cs arbitrary: reg)
  case Nil
  then show ?case by simp
next
  case (Cons c cs)
  from Cons.prems(1) obtain reg1 where first: "init_subclass reg c = Inr reg1"
    and rest: "define_classes reg1 cs = Inr reg'"
    by (auto split: sum.splits)
  from init_subclass_Inr [OF first] Cons.prems(2) have "reg1 p = Some h"
    by auto
  with Cons.IH [OF rest] show ?case .
qed

lemma define_classes_registered:
  "define_classes reg cs = Inr reg' \<Longrightarrow> c \<in> set cs \<Longrightarrow>
   \<exists>p. module_package (cls_module c) = Inr p \<and> reg p = None \<and> reg' p = Some (c\<lparr>package := p\<rparr>)"
proof (induction cs arbitrary: reg)
  case Nil
  then show ?case by simp
next
  case (Cons a cs)
  from Cons.prems(1) obtain reg1 where first: "init_subclass reg a = Inr reg1"
    and rest: "define_classes reg1 cs = Inr reg'"
    by (auto split: sum.splits)
  from init_subclass_Inr [OF first] obtain q where q: "module_package (cls_module a) = Inr q"
    "reg q = None" "reg1 = reg(q \<mapsto> a\<lparr>package := q\<rparr>)"
    by blast
  show ?case
  proof (cases "c = a")
    case True
    have "reg1 q = Some (a\<lparr>package := q\<rparr>)" using q(3) by simp
    then have "reg' q = Some (a\<lparr>package := q\<rparr>)"
      using define_classes_keeps [OF rest] by blast
    with q True show ?thesis by blast
  next
    case False
    with Cons.prems(2) have "c \<in> set cs" by simp
    from Cons.IH [OF rest this] obtain p where p: "module_package (cls_module c) = Inr p"
      "reg1 p = None" "reg' p = Some (c\<lparr>package := p\<rparr>)"
      by blast
    from p(2) q(3) have "reg p = None" by (auto split: if_splits)
    with p show ?thesis by blast
  qed
qed

lemma define_classes_distinct:
  "define_classes reg cs = Inr reg' \<Longrightarrow> distinct (map (\<lambda>c. module_package (cls_module c)) cs)"
proof (induction cs arbitrary: reg)
  case Nil
  then show ?case by simp
next
  case (Cons a cs)
  from Cons.prems obtain reg1 where first: "init_subclass reg a = Inr reg1"
    and rest: "define_classes reg1 cs = Inr reg'"
    by (auto split: sum.splits)
  from init_subclass_Inr [OF first] obtain q where q: "module_package (cls_module a) = Inr q"
    "reg1 = reg(q \<mapsto> a\<lparr>package := q\<rparr>)"
    by blast
  have "module_package (cls_module a) \<notin> set (map (\<lambda>c. module_package (cls_module c)) cs)"
  proof
    assume "module_package (cls_module a) \<in> set (map (\<lambda>c. module_package (cls_module c)) cs)"
    then obtain c where c: "c \<in> set cs" "module_package (cls_module c) = Inr q"
      using q(1) by auto
    from define_classes_registered [OF rest c(1)] c(2) have "reg1 q = None"
      by auto
    with q(2) show False by simp
  qed
  with Cons.IH [OF rest] show ?case by simp
qed

text \<open>
  Claim C9: when handler classes have been defined one after the other without error, and
  a further class comes from a module with the same format identifier (the last but one
  component of the module name) as one of them, then its registration raises
  \<^verbatim>\<open>ValueError\<close>: the class statement itself fails, and with it the sequence of class
  statements, whatever follows. The registry keeps the class that was registered first
  under that name, and the classes registered so far have pairwise distinct identifiers.
\<close>

theorem duplicate_registration_raises:
  assumes "define_classes reg0 cs = Inr reg"
    and "c1 \<in> set cs"
    and "module_package (cls_module c2) = module_package (cls_module c1)"
  shows "\<exists>p. module_package (cls_module c1) = Inr p \<and>
             reg p = Some (c1\<lparr>package := p\<rparr>) \<and>
             init_subclass reg c2 = Inl (already_exists p) \<and>
             define_classes reg0 (cs @ c2 # later) = Inl (already_exists p) \<and>
             distinct (map (\<lambda>c. module_package (cls_module c)) cs)"
proof -
  from define_classes_registered [OF assms(1,2)] obtain p
    where p: "module_package (cls_module c1) = Inr p" "reg p = Some (c1\<lparr>package := p\<rparr>)"
    by blast
  have dup: "init_subclass reg c2 = Inl (already_exists p)"
    using assms(3) p by (simp add: init_subclass_taken)
  then have "define_classes reg0 (cs @ c2 # later) = Inl (already_exists p)"
    using assms(1) by (simp add: define_classes_append)
  with p dup define_classes_distinct [OF assms(1)] show ?thesis
    by blast
qed

text \<open>Two handlers in the packages \<^verbatim>\<open>takeout\<close> and \<^verbatim>\<open>health_sync\<close>, then a second
  class in \<^verbatim>\<open>takeout\<close>.\<close>

theorem duplicate_registration_raises_witness:
  "define_classes Map.empty
     [\<lparr>cls_name = ''TakeoutHandler'', cls_module = ''fitbit2oscar.takeout.handler'', package = ''fitbit2oscar''\<rparr>,
      \<lparr>cls_name = ''HealthSyncHandler'', cls_module = ''fitbit2oscar.health_sync.handler'', package = ''fitbit2oscar''\<rparr>,
      \<lparr>cls_name = ''OtherHandler'', cls_module = ''fitbit2oscar.takeout.other'', package = ''fitbit2oscar''\<rparr>] =
   Inl (ValueError ''Data handler 'takeout' already exists'')"
proof -
  let ?a = "\<lparr>cls_name = ''TakeoutHandler'', cls_module = ''fitbit2oscar.takeout.handler'', package = ''fitbit2oscar''\<rparr>"
  let ?b = "\<lparr>cls_name = ''HealthSyncHandler'', cls_module = ''fitbit2oscar.health_sync.handler'', package = ''fitbit2oscar''\<rparr>"
  let ?c = "\<lparr>cls_name = ''OtherHandler'', cls_module = ''fitbit2oscar.takeout.other'', package = ''fitbit2oscar''\<rparr>"
  have pa: "module_package (cls_module ?a) = Inr ''takeout''"
    by (simp add: module_package_def seq_index_def)
  have pb: "module_package (cls_module ?b) = Inr ''health_sync''"
    by (simp add: module_package_def seq_index_def)
  have pc: "module_package (cls_module ?c) = Inr ''takeout''"
    by (simp add: module_package_def seq_index_def)
  have ok: "define_classes Map.empty [?a, ?b] =
      Inr [''takeout'' \<mapsto> ?a\<lparr>package := ''takeout''\<rparr>, ''health_sync'' \<mapsto> ?b\<lparr>package := ''health_sync''\<rparr>]"
    using pa pb by (simp add: init_subclass_def)
  have same: "module_package (cls_module ?c) = module_package (cls_module ?a)"
    using pa pc by simp
  from duplicate_registration_raises [OF ok _ same, of "[]"] pa
  show ?thesis
    by (simp add: already_exists_def)
qed


end
